theory Spec2Isabelle
  imports Main "HOL-Library.AList"
begin

section \<open>The OpenAPI 3.1.0 to 3.0.2 converter (scripts/docs\_openapi\_converter.py)\<close>

subsection \<open>JSON values\<close>

text \<open>
  The converter works on what \<^verbatim>\<open>json.load\<close> returns: dicts, lists, strings,
  numbers, booleans and \<^verbatim>\<open>None\<close>. The code never looks inside a number, so the
  numeric payload is a type parameter. A dict keeps its insertion order and has
  unique keys: it is an association list. A character of a \<open>string\<close> stands for
  one code point of the Python string.
\<close>

datatype 'n json =
    JNull
  | JBool bool
  | JNum 'n
  | JStr string
  | JArr "'n json list"
  | JObj "(string \<times> 'n json) list"

type_synonym 'n dict = "(string \<times> 'n json) list"

text \<open>
  Every exception the converter itself can raise: \<^verbatim>\<open>len\<close> of a number, boolean
  or \<^verbatim>\<open>None\<close> and item assignment on a non-dict are a \<^verbatim>\<open>TypeError\<close>;
  \<^verbatim>\<open>.get\<close> on a non-dict is an \<^verbatim>\<open>AttributeError\<close>.
\<close>

datatype error = TypeError | AttributeError

subsection \<open>Dict operations\<close>

text \<open>
  \<^verbatim>\<open>d.get(k)\<close>, \<^verbatim>\<open>d[k] = v\<close> (an existing key keeps its position, a new key goes
  last) and \<^verbatim>\<open>d.pop(k, default)\<close> (the keys of a dict are unique, so at most one
  binding goes).
\<close>

definition dict_get :: "string \<Rightarrow> (string \<times> 'v) list \<Rightarrow> 'v option" where
  "dict_get k d = map_of d k"

definition dict_set :: "string \<Rightarrow> 'v \<Rightarrow> (string \<times> 'v) list \<Rightarrow> (string \<times> 'v) list" where
  "dict_set k v d = AList.update k v d"

definition dict_pop :: "string \<Rightarrow> (string \<times> 'v) list \<Rightarrow> (string \<times> 'v) list" where
  "dict_pop k d = AList.delete k d"

text \<open>\<^verbatim>\<open>len(x)\<close>: defined on strings, lists and dicts, a \<^verbatim>\<open>TypeError\<close> elsewhere.\<close>

fun py_len :: "'n json \<Rightarrow> error + nat" where
  "py_len (JStr s) = Inr (length s)"
| "py_len (JArr xs) = Inr (length xs)"
| "py_len (JObj d) = Inr (length d)"
| "py_len JNull = Inl TypeError"
| "py_len (JBool b) = Inl TypeError"
| "py_len (JNum n) = Inl TypeError"

text \<open>
  The filter of line 25 drops an item when
  \<^verbatim>\<open>isinstance(item, dict) and item.get("type") == "null"\<close>.
\<close>

fun is_null_typed :: "'n json \<Rightarrow> bool" where
  "is_null_typed (JObj d) = (dict_get ''type'' d = Some (JStr ''null''))"
| "is_null_typed JNull = False"
| "is_null_typed (JBool b) = False"
| "is_null_typed (JNum n) = False"
| "is_null_typed (JStr s) = False"
| "is_null_typed (JArr xs) = False"

subsection \<open>The closure variable \<^verbatim>\<open>json_content\<close>\<close>

text \<open>
  \<^verbatim>\<open>inner\<close> mutates the tree in place and, on line 26, reads
  \<^verbatim>\<open>len(json_content.get("anyOf", []))\<close> from the root document it is in the
  middle of rewriting. The document comes from a parser, so it is a tree: the only
  nodes whose mutation that read can see are the root itself and the root's own
  \<^verbatim>\<open>anyOf\<close> value. A \<open>ctx\<close> says which node a call of \<^verbatim>\<open>inner\<close> is working on:
  the root (\<^verbatim>\<open>yaml_dict is json_content\<close>), the root's \<^verbatim>\<open>anyOf\<close> value
  (\<^verbatim>\<open>yaml_dict is json_content["anyOf"]\<close>), or any other node, for which the
  read gives the same result \<open>g\<close> during the whole call.
\<close>

datatype ctx = IsRoot | IsRootAnyOf | Elsewhere "error + nat"

text \<open>
  \<open>root_anyOf_len c node\<close> is \<^verbatim>\<open>len(json_content.get("anyOf", []))\<close> evaluated
  while the node being processed, in context \<open>c\<close>, has the value \<open>node\<close>.
\<close>

fun root_anyOf_len :: "ctx \<Rightarrow> 'n json \<Rightarrow> error + nat" where
  "root_anyOf_len (Elsewhere g) node = g"
| "root_anyOf_len IsRootAnyOf node = py_len node"
| "root_anyOf_len IsRoot (JObj d) =
     (case dict_get ''anyOf'' d of None \<Rightarrow> Inr 0 | Some v \<Rightarrow> py_len v)"
| "root_anyOf_len IsRoot node = Inl AttributeError"

subsection \<open>The two rewrites of a dict node\<close>

text \<open>
  Lines 24 to 27:
  \<^verbatim>\<open>
  if "anyOf" in yaml_dict and isinstance(yaml_dict["anyOf"], list):
      yaml_dict["anyOf"] = [item for item in yaml_dict["anyOf"]
                            if not (isinstance(item, dict) and item.get("type") == "null")]
      if len(yaml_dict["anyOf"]) < len(json_content.get("anyOf", [])):
          yaml_dict["nullable"] = True
  \<close>
  The comparison is made after the assignment, against the root document.
\<close>

definition rule_A :: "ctx \<Rightarrow> 'n dict \<Rightarrow> error + 'n dict" where
  "rule_A c d =
     (case dict_get ''anyOf'' d of
        Some (JArr items) \<Rightarrow>
          (let kept = filter (\<lambda>item. \<not> is_null_typed item) items;
               d1 = dict_set ''anyOf'' (JArr kept) d
           in case root_anyOf_len c (JObj d1) of
                Inl e \<Rightarrow> Inl e
              | Inr n \<Rightarrow>
                  Inr (if length kept < n then dict_set ''nullable'' (JBool True) d1 else d1))
      | _ \<Rightarrow> Inr d)"

text \<open>
  Lines 30 to 33:
  \<^verbatim>\<open>
  if "examples" in yaml_dict:
      examples = yaml_dict.pop("examples", [])
      if isinstance(examples, list) and examples:
          yaml_dict["example"] = examples[0]
  \<close>
\<close>

definition rule_B :: "'n dict \<Rightarrow> 'n dict" where
  "rule_B d =
     (case dict_get ''examples'' d of
        None \<Rightarrow> d
      | Some examples \<Rightarrow>
          (let d1 = dict_pop ''examples'' d
           in case examples of
                JArr (e # rest) \<Rightarrow> dict_set ''example'' e d1
              | _ \<Rightarrow> d1))"

subsection \<open>Termination measure\<close>

text \<open>
  \<^verbatim>\<open>inner\<close> descends into the rewritten dict, which can be larger than the dict
  it started from (a \<^verbatim>\<open>nullable\<close> key is added), so the recursion is not on
  the size of the input. The nesting depth does not grow.
\<close>

fun height :: "'n json \<Rightarrow> nat"
and height_values :: "'n dict \<Rightarrow> nat"
and height_items :: "'n json list \<Rightarrow> nat" where
  "height (JObj d) = Suc (height_values d)"
| "height (JArr xs) = Suc (height_items xs)"
| "height JNull = 0"
| "height (JBool b) = 0"
| "height (JNum n) = 0"
| "height (JStr s) = 0"
| "height_values [] = 0"
| "height_values (kv # d) = max (height (snd kv)) (height_values d)"
| "height_items [] = 0"
| "height_items (x # xs) = max (height x) (height_items xs)"

lemma height_values_get: "dict_get k d = Some v \<Longrightarrow> height v \<le> height_values d"
  by (induction d) (auto simp: dict_get_def split: if_splits)

lemma height_values_set: "height_values (dict_set k v d) \<le> max (height v) (height_values d)"
  by (induction d) (auto simp: dict_set_def)

lemma height_values_pop: "height_values (dict_pop k d) \<le> height_values d"
  by (induction d) (auto simp: dict_pop_def)

lemma height_items_filter: "height_items (filter P xs) \<le> height_items xs"
  by (induction xs) auto

lemma height_values_rule_A:
  assumes "rule_A c d = Inr d1"
  shows "height_values d1 \<le> height_values d"
proof (cases "dict_get ''anyOf'' d")
  case None
  with assms show ?thesis by (simp add: rule_A_def)
next
  case (Some v)
  show ?thesis
  proof (cases v)
    case (JArr items)
    let ?kept = "filter (\<lambda>item. \<not> is_null_typed item) items"
    let ?d1 = "dict_set ''anyOf'' (JArr ?kept) d"
    have "height (JArr items) \<le> height_values d"
      using Some JArr height_values_get by metis
    then have kept: "height (JArr ?kept) \<le> height_values d"
      using height_items_filter [of "\<lambda>item. \<not> is_null_typed item" items] by simp
    have a: "height_values ?d1 \<le> height_values d"
      using height_values_set [of "''anyOf''" "JArr ?kept" d] kept by simp
    have b: "height_values (dict_set ''nullable'' (JBool True) ?d1) \<le> height_values d"
      using height_values_set [of "''nullable''" "JBool True" ?d1] a by simp
    from assms Some JArr a b show ?thesis
      by (auto simp: rule_A_def Let_def split: sum.splits if_splits)
  qed (use assms Some in \<open>simp_all add: rule_A_def\<close>)
qed

lemma height_values_rule_B: "height_values (rule_B d) \<le> height_values d"
proof (cases "dict_get ''examples'' d")
  case None
  then show ?thesis by (simp add: rule_B_def)
next
  case (Some ex)
  have p: "height_values (dict_pop ''examples'' d) \<le> height_values d"
    by (rule height_values_pop)
  show ?thesis
  proof (cases ex)
    case (JArr xs)
    show ?thesis
    proof (cases xs)
      case Nil
      with Some JArr p show ?thesis by (simp add: rule_B_def)
    next
      case (Cons e rest)
      have "height (JArr (e # rest)) \<le> height_values d"
        using Some JArr Cons height_values_get by metis
      then have "height e \<le> height_values d" by simp
      then have "height_values (dict_set ''example'' e (dict_pop ''examples'' d)) \<le> height_values d"
        using height_values_set [of "''example''" e "dict_pop ''examples'' d"] p by simp
      with Some JArr Cons show ?thesis by (simp add: rule_B_def)
    qed
  qed (use Some p in \<open>simp_all add: rule_B_def\<close>)
qed

subsection \<open>The traversal\<close>

text \<open>
  Lines 20 to 41. A dict is rewritten first (rule A, then rule B), then
  \<^verbatim>\<open>for value in yaml_dict.values(): inner(value)\<close> visits the values of the
  rewritten dict in order; a list has its items visited in order; anything else is
  left alone. The first exception ends the call.

  \<open>inner_values c g d\<close> is the loop over the values of a dict whose context is \<open>c\<close>,
  with \<open>g\<close> the current result of \<^verbatim>\<open>len(json_content.get("anyOf", []))\<close>. In the
  root, the value under the key \<^verbatim>\<open>anyOf\<close> is the node that read looks at: it is
  visited in context \<open>IsRootAnyOf\<close>, and the values after it see its new length
  (a dict there can gain or lose keys by its own rewrite).
\<close>

function inner :: "ctx \<Rightarrow> 'n json \<Rightarrow> error + 'n json"
and inner_values :: "ctx \<Rightarrow> error + nat \<Rightarrow> 'n dict \<Rightarrow> error + 'n dict"
and inner_items :: "error + nat \<Rightarrow> 'n json list \<Rightarrow> error + 'n json list" where
  "inner c (JObj d) =
     (case rule_A c d of
        Inl e \<Rightarrow> Inl e
      | Inr d1 \<Rightarrow>
          (case inner_values c (root_anyOf_len c (JObj (rule_B d1))) (rule_B d1) of
             Inl e \<Rightarrow> Inl e
           | Inr d3 \<Rightarrow> Inr (JObj d3)))"
| "inner c (JArr xs) =
     (case inner_items (root_anyOf_len c (JArr xs)) xs of
        Inl e \<Rightarrow> Inl e
      | Inr ys \<Rightarrow> Inr (JArr ys))"
| "inner c JNull = Inr JNull"
| "inner c (JBool b) = Inr (JBool b)"
| "inner c (JNum n) = Inr (JNum n)"
| "inner c (JStr s) = Inr (JStr s)"
| "inner_values c g [] = Inr []"
| "inner_values c g ((k, v) # d) =
     (if c = IsRoot \<and> k = ''anyOf'' then
        (case inner IsRootAnyOf v of
           Inl e \<Rightarrow> Inl e
         | Inr v' \<Rightarrow>
             (case inner_values c (py_len v') d of
                Inl e \<Rightarrow> Inl e
              | Inr d' \<Rightarrow> Inr ((k, v') # d')))
      else
        (case inner (Elsewhere g) v of
           Inl e \<Rightarrow> Inl e
         | Inr v' \<Rightarrow>
             (case inner_values c g d of
                Inl e \<Rightarrow> Inl e
              | Inr d' \<Rightarrow> Inr ((k, v') # d'))))"
| "inner_items g [] = Inr []"
| "inner_items g (x # xs) =
     (case inner (Elsewhere g) x of
        Inl e \<Rightarrow> Inl e
      | Inr x' \<Rightarrow>
          (case inner_items g xs of
             Inl e \<Rightarrow> Inl e
           | Inr xs' \<Rightarrow> Inr (x' # xs')))"
  by pat_completeness auto
termination
proof (relation "measures
    [\<lambda>x. case x of
       Inl (c, v) \<Rightarrow> height v
     | Inr (Inl (c, g, d)) \<Rightarrow> height_values d
     | Inr (Inr (g, xs)) \<Rightarrow> height_items xs,
     \<lambda>x. case x of Inl (c, v) \<Rightarrow> 0 | Inr y \<Rightarrow> 1,
     \<lambda>x. case x of
       Inl (c, v) \<Rightarrow> 0
     | Inr (Inl (c, g, d)) \<Rightarrow> length d
     | Inr (Inr (g, xs)) \<Rightarrow> length xs]", goal_cases)
  case 1
  show ?case by simp
next
  case (2 c d d1)
  have "height_values (rule_B d1) \<le> height_values d"
    using height_values_rule_B [of d1] height_values_rule_A [OF 2] by simp
  then show ?case by simp
qed (auto simp: less_Suc_eq_le)

text \<open>
  Lines 11 to 44. \<^verbatim>\<open>json_content["openapi"] = "3.0.2"\<close> raises a
  \<^verbatim>\<open>TypeError\<close> when the document is not a dict; then \<^verbatim>\<open>inner(json_content)\<close>
  runs on the root and the mutated document is returned.
\<close>

definition convert_3_dot_1_to_3_dot_0 :: "'n json \<Rightarrow> error + 'n json" where
  "convert_3_dot_1_to_3_dot_0 json_content =
     (case json_content of
        JObj d \<Rightarrow> inner IsRoot (JObj (dict_set ''openapi'' (JStr ''3.0.2'') d))
      | _ \<Rightarrow> Inl TypeError)"

subsection \<open>Properties of a whole tree\<close>

text \<open>
  \<open>all_objects P v\<close>: every dict reachable from \<open>v\<close> through dict values and list
  items, \<open>v\<close> included, satisfies \<open>P\<close>.
\<close>

fun all_objects :: "('n dict \<Rightarrow> bool) \<Rightarrow> 'n json \<Rightarrow> bool"
and all_objects_values :: "('n dict \<Rightarrow> bool) \<Rightarrow> 'n dict \<Rightarrow> bool"
and all_objects_items :: "('n dict \<Rightarrow> bool) \<Rightarrow> 'n json list \<Rightarrow> bool" where
  "all_objects P (JObj d) = (P d \<and> all_objects_values P d)"
| "all_objects P (JArr xs) = all_objects_items P xs"
| "all_objects P JNull = True"
| "all_objects P (JBool b) = True"
| "all_objects P (JNum n) = True"
| "all_objects P (JStr s) = True"
| "all_objects_values P [] = True"
| "all_objects_values P (kv # d) = (all_objects P (snd kv) \<and> all_objects_values P d)"
| "all_objects_items P [] = True"
| "all_objects_items P (x # xs) = (all_objects P x \<and> all_objects_items P xs)"

text \<open>
  A dict whose \<^verbatim>\<open>anyOf\<close> is a list has no item there that is a dict with
  \<^verbatim>\<open>type\<close> equal to the string \<^verbatim>\<open>null\<close>.
\<close>

definition anyOf_has_no_null_branch :: "'n dict \<Rightarrow> bool" where
  "anyOf_has_no_null_branch d =
     (case dict_get ''anyOf'' d of
        Some (JArr items) \<Rightarrow> list_all (\<lambda>item. \<not> is_null_typed item) items
      | _ \<Rightarrow> True)"

text \<open>A dict has no key \<^verbatim>\<open>examples\<close>.\<close>

definition has_no_examples :: "'n dict \<Rightarrow> bool" where
  "has_no_examples d = (dict_get ''examples'' d = None)"

text \<open>A dict on which neither rule has anything to do.\<close>

definition needs_no_rewrite :: "'n dict \<Rightarrow> bool" where
  "needs_no_rewrite d = (anyOf_has_no_null_branch d \<and> has_no_examples d)"

subsection \<open>Properties of one dict node\<close>

text \<open>\<^verbatim>\<open>isinstance(x, list)\<close> and \<^verbatim>\<open>isinstance(x, dict)\<close>.\<close>

fun is_list :: "'n json \<Rightarrow> bool" where
  "is_list (JArr xs) = True"
| "is_list JNull = False"
| "is_list (JBool b) = False"
| "is_list (JNum n) = False"
| "is_list (JStr s) = False"
| "is_list (JObj d) = False"

fun is_dict :: "'n json \<Rightarrow> bool" where
  "is_dict (JObj d) = True"
| "is_dict JNull = False"
| "is_dict (JBool b) = False"
| "is_dict (JNum n) = False"
| "is_dict (JStr s) = False"
| "is_dict (JArr xs) = False"

text \<open>
  Field \<open>k\<close> of the converted dict \<open>d'\<close> is field \<open>k\<close> of the dict \<open>d\<close>, recursively
  converted: absent when it was absent, and otherwise what \<^verbatim>\<open>inner\<close> returns for the
  old value.
\<close>

definition carried_over :: "string \<Rightarrow> 'n dict \<Rightarrow> 'n dict \<Rightarrow> bool" where
  "carried_over k d d' =
     (case dict_get k d of
        None \<Rightarrow> dict_get k d' = None
      | Some v \<Rightarrow> \<exists>g v'. inner (Elsewhere g) v = Inr v' \<and> dict_get k d' = Some v')"

section \<open>Auxiliary facts\<close>

subsection \<open>Dicts and the two rewrites\<close>

lemma dict_get_set: "dict_get k (dict_set k' v d) = (if k = k' then Some v else dict_get k d)"
  by (simp add: dict_get_def dict_set_def update_conv')

lemma dict_get_pop: "dict_get k (dict_pop k' d) = (if k = k' then None else dict_get k d)"
  by (simp add: dict_get_def dict_pop_def delete_conv')

lemma dict_get_None_iff: "dict_get k d = None \<longleftrightarrow> k \<notin> fst ` set d"
  by (simp add: dict_get_def map_of_eq_None_iff)

lemma dict_set_same: "dict_get k d = Some v \<Longrightarrow> dict_set k v d = d"
  by (simp add: dict_get_def dict_set_def update_triv)

lemma rule_A_skip:
  "(\<And>items. dict_get ''anyOf'' d \<noteq> Some (JArr items)) \<Longrightarrow> rule_A c d = Inr d"
  by (simp add: rule_A_def split: option.splits json.splits)

lemma rule_A_get_other:
  "rule_A c d = Inr d1 \<Longrightarrow> k \<noteq> ''anyOf'' \<Longrightarrow> k \<noteq> ''nullable'' \<Longrightarrow> dict_get k d1 = dict_get k d"
  by (auto simp: rule_A_def Let_def dict_get_set split: option.splits json.splits sum.splits if_splits)

lemma rule_A_get_anyOf:
  "rule_A c d = Inr d1 \<Longrightarrow>
   dict_get ''anyOf'' d1 =
     (case dict_get ''anyOf'' d of
        Some (JArr items) \<Rightarrow> Some (JArr (filter (\<lambda>item. \<not> is_null_typed item) items))
      | other \<Rightarrow> other)"
  by (auto simp: rule_A_def Let_def dict_get_set split: option.splits json.splits sum.splits if_splits)

text \<open>
  What line 26 does: the flag is set exactly when the filtered list is shorter than
  the root's \<^verbatim>\<open>anyOf\<close>.
\<close>

lemma rule_A_nullable:
  assumes "rule_A c d = Inr d1"
    and "dict_get ''anyOf'' d = Some (JArr items)"
    and "root_anyOf_len c
           (JObj (dict_set ''anyOf'' (JArr (filter (\<lambda>item. \<not> is_null_typed item) items)) d)) = Inr n"
  shows "dict_get ''nullable'' d1 =
     (if length (filter (\<lambda>item. \<not> is_null_typed item) items) < n
      then Some (JBool True) else dict_get ''nullable'' d)"
  using assms by (auto simp: rule_A_def Let_def dict_get_set)

lemma rule_B_get_other:
  "k \<noteq> ''examples'' \<Longrightarrow> k \<noteq> ''example'' \<Longrightarrow> dict_get k (rule_B d) = dict_get k d"
  by (auto simp: rule_B_def Let_def dict_get_set dict_get_pop split: option.splits json.splits list.splits)

lemma rule_B_get_examples: "dict_get ''examples'' (rule_B d) = None"
  by (auto simp: rule_B_def Let_def dict_get_set dict_get_pop split: option.splits json.splits list.splits)

lemma rule_B_get_example:
  "dict_get ''example'' (rule_B d) =
     (case dict_get ''examples'' d of
        Some (JArr (e # rest)) \<Rightarrow> Some e
      | other \<Rightarrow> dict_get ''example'' d)"
  by (auto simp: rule_B_def Let_def dict_get_set dict_get_pop split: option.splits json.splits list.splits)

lemma inner_JObj_shape: "inner c (JObj d) = Inr v' \<Longrightarrow> \<exists>d'. v' = JObj d'"
  by (auto split: sum.splits)

lemma inner_values_get:
  "inner_values c g d = Inr d' \<Longrightarrow>
   (case dict_get k d of
      None \<Rightarrow> dict_get k d' = None
    | Some v \<Rightarrow>
        \<exists>c' v'. inner c' v = Inr v' \<and> dict_get k d' = Some v' \<and>
          (if c = IsRoot \<and> k = ''anyOf'' then c' = IsRootAnyOf else \<exists>g'. c' = Elsewhere g'))"
proof (induction d arbitrary: g d')
  case Nil
  then show ?case by (simp add: dict_get_def)
next
  case (Cons kv d)
  obtain k0 v0 where kv: "kv = (k0, v0)" by (cases kv)
  show ?case
  proof (cases "c = IsRoot \<and> k0 = ''anyOf''")
    case True
    with Cons.prems kv obtain v0' d0' where
      v0: "inner IsRootAnyOf v0 = Inr v0'" and
      d0: "inner_values c (py_len v0') d = Inr d0'" and
      d': "d' = (k0, v0') # d0'"
      by (auto split: sum.splits)
    from Cons.IH [OF d0] v0 d' kv True show ?thesis
      by (auto simp: dict_get_def split: option.splits)
  next
    case False
    with Cons.prems kv obtain v0' d0' where
      v0: "inner (Elsewhere g) v0 = Inr v0'" and
      d0: "inner_values c g d = Inr d0'" and
      d': "d' = (k0, v0') # d0'"
      by (auto split: sum.splits)
    from Cons.IH [OF d0] v0 d' kv False show ?thesis
      by (auto simp: dict_get_def split: option.splits)
  qed
qed

lemma inner_items_all2:
  "inner_items g xs = Inr ys \<Longrightarrow> list_all2 (\<lambda>x y. inner (Elsewhere g) x = Inr y) xs ys"
  by (induction xs arbitrary: ys) (auto split: sum.splits)

subsection \<open>The traversal reaches every dict\<close>

lemma inner_is_null_typed:
  assumes "inner c v = Inr v'"
  shows "is_null_typed v' = is_null_typed v"
proof (cases v)
  case (JObj d)
  from assms JObj obtain d1 d3 where
    d1: "rule_A c d = Inr d1" and
    d3: "inner_values c (root_anyOf_len c (JObj (rule_B d1))) (rule_B d1) = Inr d3" and
    v': "v' = JObj d3"
    by (auto split: sum.splits)
  have same: "dict_get ''type'' (rule_B d1) = dict_get ''type'' d"
    using rule_A_get_other [OF d1, of "''type''"] rule_B_get_other [of "''type''" d1] by simp
  show ?thesis
  proof (cases "dict_get ''type'' d")
    case None
    with inner_values_get [OF d3, of "''type''"] same JObj v' show ?thesis by simp
  next
    case (Some t)
    with inner_values_get [OF d3, of "''type''"] same obtain c' t' where
      t: "inner c' t = Inr t'" and t': "dict_get ''type'' d3 = Some t'"
      by auto
    have "t' = JStr ''null'' \<longleftrightarrow> t = JStr ''null''"
      using t by (cases t) (auto split: sum.splits)
    with Some t' JObj v' show ?thesis by simp
  qed
qed (use assms in \<open>auto split: sum.splits\<close>)

lemma inner_items_no_null:
  assumes "inner_items g xs = Inr ys" "list_all (\<lambda>item. \<not> is_null_typed item) xs"
  shows "list_all (\<lambda>item. \<not> is_null_typed item) ys"
  using assms
proof (induction xs arbitrary: ys)
  case Nil
  then show ?case by simp
next
  case (Cons x xs)
  from Cons.prems(1) obtain x' xs' where
    x: "inner (Elsewhere g) x = Inr x'" and xs: "inner_items g xs = Inr xs'" and ys: "ys = x' # xs'"
    by (auto split: sum.splits)
  from Cons.IH [OF xs] Cons.prems(2) inner_is_null_typed [OF x] ys show ?case by simp
qed

text \<open>Every dict of the output is what some call of inner returned.\<close>

lemma all_objects_inner:
  assumes node: "\<And>c d d'. inner c (JObj d) = Inr (JObj d') \<Longrightarrow> P d'"
  shows "(\<forall>v'. inner c v = Inr v' \<longrightarrow> all_objects P v')"
    and "(\<forall>d'. inner_values c g d = Inr d' \<longrightarrow> all_objects_values P d')"
    and "(\<forall>ys. inner_items g xs = Inr ys \<longrightarrow> all_objects_items P ys)"
proof (induction c v and c g d and g xs rule: inner_inner_values_inner_items.induct)
  case (1 c d)
  show ?case
  proof (intro allI impI)
    fix v' assume a: "inner c (JObj d) = Inr v'"
    then obtain d1 d3 where
      d1: "rule_A c d = Inr d1" and
      d3: "inner_values c (root_anyOf_len c (JObj (rule_B d1))) (rule_B d1) = Inr d3" and
      v': "v' = JObj d3"
      by (auto split: sum.splits)
    from a v' have "P d3" using node by blast
    moreover from "1" [OF d1] d3 have "all_objects_values P d3" by blast
    ultimately show "all_objects P v'" using v' by simp
  qed
next
  case (2 c xs)
  then show ?case by (auto split: sum.splits)
next
  case (8 c g k v d)
  show ?case
  proof (intro allI impI)
    fix d' assume a: "inner_values c g ((k, v) # d) = Inr d'"
    show "all_objects_values P d'"
    proof (cases "c = IsRoot \<and> k = ''anyOf''")
      case True
      with a obtain v' d0 where
        v: "inner IsRootAnyOf v = Inr v'" and
        d0: "inner_values c (py_len v') d = Inr d0" and
        d': "d' = (k, v') # d0"
        by (auto split: sum.splits)
      from "8.IH"(1) [OF True] v have "all_objects P v'" by blast
      moreover from "8.IH"(2) [OF True v] d0 have "all_objects_values P d0" by blast
      ultimately show ?thesis using d' by simp
    next
      case False
      with a obtain v' d0 where
        v: "inner (Elsewhere g) v = Inr v'" and
        d0: "inner_values c g d = Inr d0" and
        d': "d' = (k, v') # d0"
        by (auto split: sum.splits)
      from "8.IH"(3) [OF False] v have "all_objects P v'" by blast
      moreover from "8.IH"(4) [OF False v] d0 have "all_objects_values P d0" by blast
      ultimately show ?thesis using d' by simp
    qed
  qed
next
  case (10 g x xs)
  show ?case
  proof (intro allI impI)
    fix ys assume a: "inner_items g (x # xs) = Inr ys"
    then obtain x' xs' where
      x: "inner (Elsewhere g) x = Inr x'" and
      xs: "inner_items g xs = Inr xs'" and
      ys: "ys = x' # xs'"
      by (auto split: sum.splits)
    from "10.IH"(1) x have "all_objects P x'" by blast
    moreover from "10.IH"(2) [OF x] xs have "all_objects_items P xs'" by blast
    ultimately show "all_objects_items P ys" using ys by simp
  qed
qed simp_all

lemma inner_node_anyOf:
  assumes "inner c (JObj d) = Inr (JObj d')"
  shows "anyOf_has_no_null_branch d'"
proof -
  from assms obtain d1 where
    d1: "rule_A c d = Inr d1" and
    d3: "inner_values c (root_anyOf_len c (JObj (rule_B d1))) (rule_B d1) = Inr d'"
    by (auto split: sum.splits)
  have pre: "dict_get ''anyOf'' (rule_B d1) =
     (case dict_get ''anyOf'' d of
        Some (JArr items) \<Rightarrow> Some (JArr (filter (\<lambda>item. \<not> is_null_typed item) items))
      | other \<Rightarrow> other)"
    using rule_A_get_anyOf [OF d1] rule_B_get_other [of "''anyOf''" d1] by simp
  show ?thesis
  proof (cases "dict_get ''anyOf'' (rule_B d1)")
    case None
    with inner_values_get [OF d3, of "''anyOf''"] show ?thesis
      by (simp add: anyOf_has_no_null_branch_def)
  next
    case (Some v)
    with inner_values_get [OF d3, of "''anyOf''"] obtain c' v' where
      v: "inner c' v = Inr v'" and v': "dict_get ''anyOf'' d' = Some v'"
      by auto
    show ?thesis
    proof (cases "\<exists>xs. v = JArr xs")
      case True
      then obtain xs where xs: "v = JArr xs" by blast
      from pre Some xs have clean: "list_all (\<lambda>item. \<not> is_null_typed item) xs"
        by (auto simp: list_all_iff split: option.splits json.splits)
      from v xs obtain ys where
        ys: "inner_items (root_anyOf_len c' (JArr xs)) xs = Inr ys" and vys: "v' = JArr ys"
        by (auto split: sum.splits)
      from inner_items_no_null [OF ys clean] v' vys show ?thesis
        by (simp add: anyOf_has_no_null_branch_def)
    next
      case False
      with v have "\<And>ys. v' \<noteq> JArr ys"
        by (cases v) (auto split: sum.splits)
      with v' show ?thesis
        by (auto simp: anyOf_has_no_null_branch_def split: json.splits)
    qed
  qed
qed

lemma inner_node_examples:
  assumes "inner c (JObj d) = Inr (JObj d')"
  shows "has_no_examples d'"
proof -
  from assms obtain d1 where
    d3: "inner_values c (root_anyOf_len c (JObj (rule_B d1))) (rule_B d1) = Inr d'"
    by (auto split: sum.splits)
  from inner_values_get [OF d3, of "''examples''"] show ?thesis
    by (simp add: has_no_examples_def rule_B_get_examples)
qed

subsection \<open>What one call does to the fields of a dict\<close>

lemma inner_node_split:
  assumes "inner c (JObj d) = Inr out"
  obtains d1 d' where "rule_A c d = Inr d1"
    and "inner_values c (root_anyOf_len c (JObj (rule_B d1))) (rule_B d1) = Inr d'"
    and "out = JObj d'"
  using assms by (auto split: sum.splits)

lemma inner_leaf: "inner c v = Inr v' \<Longrightarrow> \<not> is_dict v \<Longrightarrow> \<not> is_list v \<Longrightarrow> v' = v"
  by (cases v) auto

lemma inner_values_carried:
  assumes "inner_values c g d = Inr d'" "k \<noteq> ''anyOf''"
  shows "carried_over k d d'"
  using inner_values_get [OF assms(1), of k] assms(2)
  by (auto simp: carried_over_def split: option.splits)

lemma inner_node_carried:
  assumes "inner c (JObj d) = Inr (JObj d')"
    and "k \<noteq> ''anyOf''" "k \<noteq> ''nullable''" "k \<noteq> ''examples''" "k \<noteq> ''example''"
  shows "carried_over k d d'"
proof -
  from assms(1) obtain d1 where
    d1: "rule_A c d = Inr d1" and
    d3: "inner_values c (root_anyOf_len c (JObj (rule_B d1))) (rule_B d1) = Inr d'"
    by (auto split: sum.splits)
  have "dict_get k (rule_B d1) = dict_get k d"
    using rule_A_get_other [OF d1, of k] rule_B_get_other [of k d1] assms(2-) by simp
  with inner_values_carried [OF d3 assms(2)] show ?thesis
    by (simp add: carried_over_def)
qed

subsection \<open>Documents whose root has no \<^verbatim>\<open>anyOf\<close>\<close>

text \<open>
  With a bound that is a number, line 26 cannot raise: every call outside the root
  returns.
\<close>

lemma rule_A_returns:
  assumes "c = IsRootAnyOf \<or> (\<exists>n. c = Elsewhere (Inr n))"
  shows "\<exists>d1. rule_A c d = Inr d1"
  using assms
  by (auto simp: rule_A_def Let_def split: option.splits json.splits sum.splits)

lemma inner_returns:
  fixes v :: "'n json" and d :: "'n dict" and xs :: "'n json list"
  shows "(c = IsRootAnyOf \<or> (\<exists>n. c = Elsewhere (Inr n))) \<longrightarrow> (\<exists>v'. inner c v = Inr v')"
    and "(c \<noteq> IsRoot \<or> ''anyOf'' \<notin> fst ` set d) \<and> (\<exists>n. g = Inr n) \<longrightarrow>
           (\<exists>d'. inner_values c g d = Inr d')"
    and "(\<exists>n. g = Inr n) \<longrightarrow> (\<exists>ys. inner_items g xs = Inr ys)"
proof (induction c v and c g d and g xs rule: inner_inner_values_inner_items.induct)
  case (1 c d)
  show ?case
  proof
    assume c: "c = IsRootAnyOf \<or> (\<exists>n. c = Elsewhere (Inr n))"
    then obtain d1 where d1: "rule_A c d = Inr d1" using rule_A_returns by blast
    from c have "\<exists>n. root_anyOf_len c (JObj (rule_B d1)) = Inr n" by auto
    with "1" [OF d1] c obtain d' where
      "inner_values c (root_anyOf_len c (JObj (rule_B d1))) (rule_B d1) = Inr d'"
      by auto
    with d1 show "\<exists>v'. inner c (JObj d) = Inr v'" by simp
  qed
next
  case (2 c xs)
  show ?case
  proof
    assume c: "c = IsRootAnyOf \<or> (\<exists>n. c = Elsewhere (Inr n))"
    then have "\<exists>n. root_anyOf_len c (JArr xs) = Inr n" by auto
    with "2" obtain ys where "inner_items (root_anyOf_len c (JArr xs)) xs = Inr ys" by blast
    then show "\<exists>v'. inner c (JArr xs) = Inr v'" by simp
  qed
next
  case (8 c g k v d)
  show ?case
  proof
    assume a: "(c \<noteq> IsRoot \<or> ''anyOf'' \<notin> fst ` set ((k, v) # d)) \<and> (\<exists>n. g = Inr n)"
    then have no: "\<not> (c = IsRoot \<and> k = ''anyOf'')" by auto
    from a "8.IH"(3) [OF no] obtain v' where v: "inner (Elsewhere g) v = Inr v'" by blast
    from a "8.IH"(4) [OF no v] obtain d' where "inner_values c g d = Inr d'" by auto
    with no v show "\<exists>d'. inner_values c g ((k, v) # d) = Inr d'" by auto
  qed
next
  case (10 g x xs)
  show ?case
  proof
    assume a: "\<exists>n. g = Inr n"
    with "10.IH"(1) obtain x' where x: "inner (Elsewhere g) x = Inr x'" by blast
    from a "10.IH"(2) [OF x] obtain xs' where "inner_items g xs = Inr xs'" by blast
    with x show "\<exists>ys. inner_items g (x # xs) = Inr ys" by simp
  qed
qed simp_all

text \<open>
  When the root has no \<^verbatim>\<open>anyOf\<close>, the bound of line 26 is 0 during the whole run,
  and the conversion returns. (The interpreter's recursion limit, which a document
  nested deeply enough would reach, is not part of the model.)
\<close>

lemma convert_unfold:
  "convert_3_dot_1_to_3_dot_0 (JObj d) =
     inner IsRoot (JObj (dict_set ''openapi'' (JStr ''3.0.2'') d))"
  by (simp add: convert_3_dot_1_to_3_dot_0_def)

lemma inner_root_without_anyOf:
  assumes "dict_get ''anyOf'' d = None"
  shows "inner IsRoot (JObj d) =
     (case inner_values IsRoot (Inr 0) (rule_B d) of
        Inl e \<Rightarrow> Inl e
      | Inr d' \<Rightarrow> Inr (JObj d'))"
    and "''anyOf'' \<notin> fst ` set (rule_B d)"
proof -
  from assms have skip: "rule_A IsRoot d = Inr d"
    by (intro rule_A_skip) simp
  have none: "dict_get ''anyOf'' (rule_B d) = None"
    using rule_B_get_other [of "''anyOf''" d] assms by simp
  then show "''anyOf'' \<notin> fst ` set (rule_B d)" by (simp add: dict_get_None_iff)
  from skip none show "inner IsRoot (JObj d) =
     (case inner_values IsRoot (Inr 0) (rule_B d) of
        Inl e \<Rightarrow> Inl e
      | Inr d' \<Rightarrow> Inr (JObj d'))"
    by simp
qed

lemma convert_returns:
  assumes "dict_get ''anyOf'' d = None"
  shows "\<exists>out. convert_3_dot_1_to_3_dot_0 (JObj d) = Inr out"
proof -
  let ?d0 = "dict_set ''openapi'' (JStr ''3.0.2'') d"
  from assms have none: "dict_get ''anyOf'' ?d0 = None" by (simp add: dict_get_set)
  from inner_root_without_anyOf(2) [OF none] inner_returns(2) [of IsRoot "rule_B ?d0" "Inr 0"]
  obtain d' where "inner_values IsRoot (Inr 0) (rule_B ?d0) = Inr d'" by blast
  with inner_root_without_anyOf(1) [OF none] show ?thesis
    by (simp add: convert_unfold)
qed

text \<open>
  With the bound 0, a tree in which no dict needs a rewrite is returned as it is, and
  so a second conversion changes nothing.
\<close>

lemma rule_A_needs_no_rewrite:
  assumes "needs_no_rewrite d" "root_anyOf_len c (JObj d) = Inr 0"
  shows "rule_A c d = Inr d"
proof (cases "\<exists>items. dict_get ''anyOf'' d = Some (JArr items)")
  case True
  then obtain items where items: "dict_get ''anyOf'' d = Some (JArr items)" by blast
  with assms(1) have "filter (\<lambda>item. \<not> is_null_typed item) items = items"
    by (simp add: needs_no_rewrite_def anyOf_has_no_null_branch_def list_all_iff)
  with items assms(2) show ?thesis
    by (simp add: rule_A_def dict_set_same)
next
  case False
  then show ?thesis by (intro rule_A_skip) simp
qed

lemma rule_B_needs_no_rewrite: "needs_no_rewrite d \<Longrightarrow> rule_B d = d"
  by (simp add: needs_no_rewrite_def has_no_examples_def rule_B_def)

lemma inner_needs_no_rewrite:
  fixes v :: "'n json" and d :: "'n dict" and xs :: "'n json list"
  shows "all_objects needs_no_rewrite v \<and>
           (c = Elsewhere (Inr 0) \<or> (c = IsRoot \<and> (\<exists>d. v = JObj d \<and> ''anyOf'' \<notin> fst ` set d)))
         \<longrightarrow> inner c v = Inr v"
    and "all_objects_values needs_no_rewrite d \<and> g = Inr 0 \<and>
           (c \<noteq> IsRoot \<or> ''anyOf'' \<notin> fst ` set d)
         \<longrightarrow> inner_values c g d = Inr d"
    and "all_objects_items needs_no_rewrite xs \<and> g = Inr 0 \<longrightarrow> inner_items g xs = Inr xs"
proof (induction c v and c g d and g xs rule: inner_inner_values_inner_items.induct)
  case (1 c d)
  show ?case
  proof
    assume a: "all_objects needs_no_rewrite (JObj d) \<and>
      (c = Elsewhere (Inr 0) \<or> (c = IsRoot \<and> (\<exists>d'. JObj d = JObj d' \<and> ''anyOf'' \<notin> fst ` set d')))"
    then have ok: "needs_no_rewrite d" and vals: "all_objects_values needs_no_rewrite d"
      by simp_all
    from a have len: "root_anyOf_len c (JObj d) = Inr 0"
      by (auto simp: dict_get_None_iff [symmetric])
    from a have side: "c \<noteq> IsRoot \<or> ''anyOf'' \<notin> fst ` set d" by auto
    have ra: "rule_A c d = Inr d" by (rule rule_A_needs_no_rewrite [OF ok len])
    have rb: "rule_B d = d" by (rule rule_B_needs_no_rewrite [OF ok])
    from "1" [OF ra] rb len vals side have "inner_values c (Inr 0) d = Inr d" by simp
    with ra rb len show "inner c (JObj d) = Inr (JObj d)" by simp
  qed
next
  case (2 c xs)
  then show ?case by auto
next
  case (8 c g k v d)
  show ?case
  proof
    assume a: "all_objects_values needs_no_rewrite ((k, v) # d) \<and> g = Inr 0 \<and>
      (c \<noteq> IsRoot \<or> ''anyOf'' \<notin> fst ` set ((k, v) # d))"
    then have no: "\<not> (c = IsRoot \<and> k = ''anyOf'')" by auto
    from a "8.IH"(3) [OF no] have v: "inner (Elsewhere g) v = Inr v" by simp
    from a "8.IH"(4) [OF no v] have "inner_values c g d = Inr d" by auto
    with no v show "inner_values c g ((k, v) # d) = Inr ((k, v) # d)" by auto
  qed
next
  case (10 g x xs)
  show ?case
  proof
    assume a: "all_objects_items needs_no_rewrite (x # xs) \<and> g = Inr 0"
    with "10.IH"(1) have x: "inner (Elsewhere g) x = Inr x" by simp
    from a "10.IH"(2) [OF x] have "inner_items g xs = Inr xs" by simp
    with x show "inner_items g (x # xs) = Inr (x # xs)" by simp
  qed
qed simp_all

lemma idempotent_without_root_anyOf:
  assumes "dict_get ''anyOf'' d = None"
    and "convert_3_dot_1_to_3_dot_0 (JObj d) = Inr out"
  shows "convert_3_dot_1_to_3_dot_0 out = Inr out"
proof -
  let ?d0 = "dict_set ''openapi'' (JStr ''3.0.2'') d"
  from assms(2) have run: "inner IsRoot (JObj ?d0) = Inr out" by (simp add: convert_unfold)
  then obtain d1 d' where
    d1: "rule_A IsRoot ?d0 = Inr d1" and
    d3: "inner_values IsRoot (root_anyOf_len IsRoot (JObj (rule_B d1))) (rule_B d1) = Inr d'" and
    out: "out = JObj d'"
    by (rule inner_node_split)
  have "\<And>c d d'. inner c (JObj d) = Inr (JObj d') \<Longrightarrow> needs_no_rewrite (d' :: 'a dict)"
    using inner_node_anyOf inner_node_examples by (auto simp: needs_no_rewrite_def)
  with run have clean: "all_objects needs_no_rewrite out"
    using all_objects_inner(1) [of needs_no_rewrite IsRoot "JObj ?d0"] by blast
  have "dict_get ''anyOf'' (rule_B d1) = None"
    using rule_A_get_anyOf [OF d1] rule_B_get_other [of "''anyOf''" d1] assms(1)
    by (simp add: dict_get_set)
  with inner_values_get [OF d3, of "''anyOf''"] have "''anyOf'' \<notin> fst ` set d'"
    by (simp add: dict_get_None_iff)
  with clean out have fixed: "inner IsRoot (JObj d') = Inr (JObj d')"
    using inner_needs_no_rewrite(1) [of "JObj d'" IsRoot] by simp
  have "dict_get ''openapi'' (rule_B d1) = Some (JStr ''3.0.2'')"
    using rule_A_get_other [OF d1, of "''openapi''"] rule_B_get_other [of "''openapi''" d1]
    by (simp add: dict_get_set)
  with inner_values_get [OF d3, of "''openapi''"] obtain c' v' where
    "inner c' (JStr ''3.0.2'') = Inr v'" "dict_get ''openapi'' d' = Some v'"
    by auto
  then have "dict_get ''openapi'' d' = Some (JStr ''3.0.2'')" by auto
  then have "dict_set ''openapi'' (JStr ''3.0.2'') d' = d'" by (rule dict_set_same)
  with fixed out show ?thesis by (simp add: convert_unfold)
qed

section \<open>The invariants of the converted document\<close>

text \<open>
  Claim C3. For every input document whose root is an Object, in the tree that the
  conversion returns every Object node reachable through Object values and Sequence
  elements satisfies: if it has a field \<^verbatim>\<open>anyOf\<close> whose value is a Sequence, no
  element of that Sequence is an Object whose \<^verbatim>\<open>type\<close> field is the string
  \<^verbatim>\<open>null\<close>.
\<close>

theorem no_residual_null_branches:
  assumes "convert_3_dot_1_to_3_dot_0 (JObj d) = Inr out"
  shows "all_objects anyOf_has_no_null_branch out"
proof -
  from assms have "inner IsRoot (JObj (dict_set ''openapi'' (JStr ''3.0.2'') d)) = Inr out"
    by (simp add: convert_3_dot_1_to_3_dot_0_def)
  then show ?thesis
    using all_objects_inner(1) [of anyOf_has_no_null_branch] inner_node_anyOf by blast
qed

theorem no_residual_null_branches_witness:
  "convert_3_dot_1_to_3_dot_0
     (JObj [(''openapi'', JStr ''3.1.0''),
            (''schema'', JObj [(''anyOf'', JArr [JObj [(''type'', JStr ''null'')],
                                                  JObj [(''type'', JStr ''string'')]])])])
   = Inr (JObj [(''openapi'', JStr ''3.0.2''),
                (''schema'', JObj [(''anyOf'', JArr [JObj [(''type'', JStr ''string'')]])])]
          :: int json)
   \<and> all_objects anyOf_has_no_null_branch
       (JObj [(''openapi'', JStr ''3.0.2''),
              (''schema'', JObj [(''anyOf'', JArr [JObj [(''type'', JStr ''string'')]])])]
        :: int json)"
proof -
  have h: "convert_3_dot_1_to_3_dot_0
     (JObj [(''openapi'', JStr ''3.1.0''),
            (''schema'', JObj [(''anyOf'', JArr [JObj [(''type'', JStr ''null'')],
                                                  JObj [(''type'', JStr ''string'')]])])])
   = Inr (JObj [(''openapi'', JStr ''3.0.2''),
                (''schema'', JObj [(''anyOf'', JArr [JObj [(''type'', JStr ''string'')]])])]
          :: int json)"
    by code_simp
  show ?thesis using h no_residual_null_branches [OF h] by simp
qed

text \<open>
  Claim C4. For every input document whose root is an Object, no Object node of the
  tree that the conversion returns, reachable through Object values and Sequence
  elements, has a field named \<^verbatim>\<open>examples\<close>: the field is removed from every node
  that has one, whatever the type of its value.
\<close>

theorem no_examples_left:
  assumes "convert_3_dot_1_to_3_dot_0 (JObj d) = Inr out"
  shows "all_objects has_no_examples out"
proof -
  from assms have "inner IsRoot (JObj (dict_set ''openapi'' (JStr ''3.0.2'') d)) = Inr out"
    by (simp add: convert_3_dot_1_to_3_dot_0_def)
  then show ?thesis
    using all_objects_inner(1) [of has_no_examples] inner_node_examples by blast
qed

theorem no_examples_left_witness:
  "convert_3_dot_1_to_3_dot_0
     (JObj [(''examples'', JStr ''none''),
            (''items'', JArr [JObj [(''examples'', JArr [JNum 1, JNum 2])],
                              JObj [(''examples'', JArr [])]])])
   = Inr (JObj [(''items'', JArr [JObj [(''example'', JNum 1)], JObj []]),
                (''openapi'', JStr ''3.0.2'')]
          :: int json)
   \<and> all_objects has_no_examples
       (JObj [(''items'', JArr [JObj [(''example'', JNum 1)], JObj []]),
              (''openapi'', JStr ''3.0.2'')]
        :: int json)"
proof -
  have h: "convert_3_dot_1_to_3_dot_0
     (JObj [(''examples'', JStr ''none''),
            (''items'', JArr [JObj [(''examples'', JArr [JNum 1, JNum 2])],
                              JObj [(''examples'', JArr [])]])])
   = Inr (JObj [(''items'', JArr [JObj [(''example'', JNum 1)], JObj []]),
                (''openapi'', JStr ''3.0.2'')]
          :: int json)"
    by code_simp
  show ?thesis using h no_examples_left [OF h] by simp
qed

text \<open>
  Claim C7. For every input document whose root is an Object, the root Object of the
  tree that the conversion returns has a field \<^verbatim>\<open>openapi\<close> equal to the string
  \<^verbatim>\<open>3.0.2\<close>, whatever value that field had in the input, and also when the
  input had none.
\<close>

theorem openapi_stamped:
  assumes "convert_3_dot_1_to_3_dot_0 (JObj d) = Inr out"
  shows "\<exists>d'. out = JObj d' \<and> dict_get ''openapi'' d' = Some (JStr ''3.0.2'')"
proof -
  let ?d0 = "dict_set ''openapi'' (JStr ''3.0.2'') d"
  from assms have "inner IsRoot (JObj ?d0) = Inr out"
    by (simp add: convert_3_dot_1_to_3_dot_0_def)
  then obtain d1 d' where
    d1: "rule_A IsRoot ?d0 = Inr d1" and
    d3: "inner_values IsRoot (root_anyOf_len IsRoot (JObj (rule_B d1))) (rule_B d1) = Inr d'" and
    out: "out = JObj d'"
    by (auto split: sum.splits)
  have "dict_get ''openapi'' (rule_B d1) = Some (JStr ''3.0.2'')"
    using rule_A_get_other [OF d1, of "''openapi''"] rule_B_get_other [of "''openapi''" d1]
    by (simp add: dict_get_set)
  with inner_values_get [OF d3, of "''openapi''"] obtain c' v' where
    "inner c' (JStr ''3.0.2'') = Inr v'" "dict_get ''openapi'' d' = Some v'"
    by auto
  then have "dict_get ''openapi'' d' = Some (JStr ''3.0.2'')" by auto
  with out show ?thesis by blast
qed

theorem openapi_stamped_witness:
  "convert_3_dot_1_to_3_dot_0
     (JObj [(''info'', JObj [(''title'', JStr ''keep'')]), (''openapi'', JNum 31)])
   = Inr (JObj [(''info'', JObj [(''title'', JStr ''keep'')]), (''openapi'', JStr ''3.0.2'')]
          :: int json)
   \<and> (\<exists>d'. (JObj [(''info'', JObj [(''title'', JStr ''keep'')]), (''openapi'', JStr ''3.0.2'')]
              :: int json) = JObj d'
          \<and> dict_get ''openapi'' d' = Some (JStr ''3.0.2''))"
proof -
  have h: "convert_3_dot_1_to_3_dot_0
     (JObj [(''info'', JObj [(''title'', JStr ''keep'')]), (''openapi'', JNum 31)])
   = Inr (JObj [(''info'', JObj [(''title'', JStr ''keep'')]), (''openapi'', JStr ''3.0.2'')]
          :: int json)"
    by code_simp
  show ?thesis using h openapi_stamped [OF h] by simp
qed

section \<open>What the conversion does to one node\<close>

text \<open>
  Claim C9 (frame). For every Object node, every field other than \<^verbatim>\<open>anyOf\<close>,
  \<^verbatim>\<open>nullable\<close>, \<^verbatim>\<open>examples\<close> and \<^verbatim>\<open>example\<close> (and, on the root of the document
  given to the conversion, \<^verbatim>\<open>openapi\<close>) is present in the converted node with the
  recursively converted input value, and no other field is added, removed or renamed;
  a Sequence keeps its length and its items, in order, each recursively converted (lines
  39 to 41); String, Number, Boolean and Null leaves pass through unchanged.
\<close>

theorem frame_property:
  "(inner c (JObj d) = Inr out \<longrightarrow>
      (\<exists>d'. out = JObj d' \<and>
        (\<forall>k. k \<notin> {''anyOf'', ''nullable'', ''examples'', ''example''} \<longrightarrow> carried_over k d d')))
   \<and> (convert_3_dot_1_to_3_dot_0 (JObj d) = Inr out \<longrightarrow>
      (\<exists>d'. out = JObj d' \<and>
        (\<forall>k. k \<notin> {''openapi'', ''anyOf'', ''nullable'', ''examples'', ''example''} \<longrightarrow>
           carried_over k d d')))
   \<and> (inner c (JArr xs) = Inr outs \<longrightarrow>
      (\<exists>g ys. outs = JArr ys \<and> length ys = length xs \<and>
        list_all2 (\<lambda>x y. inner (Elsewhere g) x = Inr y) xs ys))
   \<and> inner c JNull = Inr JNull
   \<and> inner c (JBool b) = Inr (JBool b)
   \<and> inner c (JNum n) = Inr (JNum n)
   \<and> inner c (JStr s) = Inr (JStr s)"
proof (intro conjI impI)
  assume a: "inner c (JObj d) = Inr out"
  then obtain d' where out: "out = JObj d'" using inner_JObj_shape by blast
  with a have "\<forall>k. k \<notin> {''anyOf'', ''nullable'', ''examples'', ''example''} \<longrightarrow> carried_over k d d'"
    using inner_node_carried [of c d d'] by simp
  with out show "\<exists>d'. out = JObj d' \<and>
        (\<forall>k. k \<notin> {''anyOf'', ''nullable'', ''examples'', ''example''} \<longrightarrow> carried_over k d d')"
    by blast
next
  let ?d0 = "dict_set ''openapi'' (JStr ''3.0.2'') d"
  assume "convert_3_dot_1_to_3_dot_0 (JObj d) = Inr out"
  then have a: "inner IsRoot (JObj ?d0) = Inr out"
    by (simp add: convert_3_dot_1_to_3_dot_0_def)
  then obtain d' where out: "out = JObj d'" using inner_JObj_shape by blast
  have "carried_over k d d'"
    if "k \<notin> {''openapi'', ''anyOf'', ''nullable'', ''examples'', ''example''}" for k
  proof -
    from that a out have "carried_over k ?d0 d'"
      using inner_node_carried [of IsRoot ?d0 d' k] by simp
    moreover from that have "dict_get k ?d0 = dict_get k d" by (simp add: dict_get_set)
    ultimately show ?thesis by (simp add: carried_over_def)
  qed
  with out show "\<exists>d'. out = JObj d' \<and>
        (\<forall>k. k \<notin> {''openapi'', ''anyOf'', ''nullable'', ''examples'', ''example''} \<longrightarrow>
           carried_over k d d')"
    by blast
next
  assume "inner c (JArr xs) = Inr outs"
  then obtain ys where
    ys: "inner_items (root_anyOf_len c (JArr xs)) xs = Inr ys" and outs: "outs = JArr ys"
    by (auto split: sum.splits)
  from inner_items_all2 [OF ys]
  have all2: "list_all2 (\<lambda>x y. inner (Elsewhere (root_anyOf_len c (JArr xs))) x = Inr y) xs ys" .
  then have "length ys = length xs" by (simp add: list_all2_lengthD)
  with all2 outs show "\<exists>g ys. outs = JArr ys \<and> length ys = length xs \<and>
        list_all2 (\<lambda>x y. inner (Elsewhere g) x = Inr y) xs ys"
    by blast
qed simp_all

theorem frame_property_witness:
  "convert_3_dot_1_to_3_dot_0
     (JObj [(''openapi'', JStr ''3.1.0''),
            (''info'', JObj [(''title'', JStr ''keep''), (''examples'', JArr [JBool True])]),
            (''servers'', JArr [JObj [(''url'', JStr ''u''), (''examples'', JArr [JStr ''e''])],
                                JStr ''x'']),
            (''examples'', JArr [])])
   = Inr (JObj [(''openapi'', JStr ''3.0.2''),
                (''info'', JObj [(''title'', JStr ''keep''), (''example'', JBool True)]),
                (''servers'', JArr [JObj [(''url'', JStr ''u''), (''example'', JStr ''e'')],
                                    JStr ''x''])]
          :: int json)
   \<and> carried_over ''info''
        [(''openapi'', JStr ''3.1.0''),
         (''info'', JObj [(''title'', JStr ''keep''), (''examples'', JArr [JBool True])]),
         (''servers'', JArr [JObj [(''url'', JStr ''u''), (''examples'', JArr [JStr ''e''])],
                             JStr ''x'']),
         (''examples'', JArr [])]
        [(''openapi'', JStr ''3.0.2''),
         (''info'', JObj [(''title'', JStr ''keep''), (''example'', JBool True)]),
         (''servers'', JArr [JObj [(''url'', JStr ''u''), (''example'', JStr ''e'')],
                             JStr ''x'' :: int json])]
   \<and> carried_over ''servers''
        [(''openapi'', JStr ''3.1.0''),
         (''info'', JObj [(''title'', JStr ''keep''), (''examples'', JArr [JBool True])]),
         (''servers'', JArr [JObj [(''url'', JStr ''u''), (''examples'', JArr [JStr ''e''])],
                             JStr ''x'']),
         (''examples'', JArr [])]
        [(''openapi'', JStr ''3.0.2''),
         (''info'', JObj [(''title'', JStr ''keep''), (''example'', JBool True)]),
         (''servers'', JArr [JObj [(''url'', JStr ''u''), (''example'', JStr ''e'')],
                             JStr ''x'' :: int json])]
   \<and> carried_over ''paths''
        [(''openapi'', JStr ''3.1.0''),
         (''info'', JObj [(''title'', JStr ''keep''), (''examples'', JArr [JBool True])]),
         (''servers'', JArr [JObj [(''url'', JStr ''u''), (''examples'', JArr [JStr ''e''])],
                             JStr ''x'']),
         (''examples'', JArr [])]
        [(''openapi'', JStr ''3.0.2''),
         (''info'', JObj [(''title'', JStr ''keep''), (''example'', JBool True)]),
         (''servers'', JArr [JObj [(''url'', JStr ''u''), (''example'', JStr ''e'')],
                             JStr ''x'' :: int json])]
   \<and> inner (Elsewhere (Inr 0))
        (JArr [JObj [(''url'', JStr ''u''), (''examples'', JArr [JStr ''e''])], JStr ''x''])
     = Inr (JArr [JObj [(''url'', JStr ''u''), (''example'', JStr ''e'')], JStr ''x''] :: int json)
   \<and> (\<exists>g. list_all2 (\<lambda>x y. inner (Elsewhere g) x = Inr y)
          [JObj [(''url'', JStr ''u''), (''examples'', JArr [JStr ''e''])], JStr ''x'']
          [JObj [(''url'', JStr ''u''), (''example'', JStr ''e'')], JStr ''x'' :: int json])"
proof -
  let ?S = "[JObj [(''url'', JStr ''u''), (''examples'', JArr [JStr ''e''])], JStr ''x'']
            :: int json list"
  let ?S' = "[JObj [(''url'', JStr ''u''), (''example'', JStr ''e'')], JStr ''x'']
             :: int json list"
  let ?D = "[(''openapi'', JStr ''3.1.0''),
             (''info'', JObj [(''title'', JStr ''keep''), (''examples'', JArr [JBool True])]),
             (''servers'', JArr ?S),
             (''examples'', JArr [])] :: int dict"
  let ?D' = "[(''openapi'', JStr ''3.0.2''),
              (''info'', JObj [(''title'', JStr ''keep''), (''example'', JBool True)]),
              (''servers'', JArr ?S')] :: int dict"
  have h: "convert_3_dot_1_to_3_dot_0 (JObj ?D) = Inr (JObj ?D')"
    by code_simp
  have "\<exists>d'. JObj ?D' = JObj d' \<and>
      (\<forall>k. k \<notin> {''openapi'', ''anyOf'', ''nullable'', ''examples'', ''example''} \<longrightarrow>
         carried_over k ?D d')"
    using frame_property [where d = ?D and out = "JObj ?D'", THEN conjunct2, THEN conjunct1] h
    by (rule mp)
  then have all: "\<forall>k. k \<notin> {''openapi'', ''anyOf'', ''nullable'', ''examples'', ''example''} \<longrightarrow>
         carried_over k ?D ?D'"
    by simp
  have info: "carried_over ''info'' ?D ?D'"
    using all [rule_format, of "''info''"] by simp
  have servers: "carried_over ''servers'' ?D ?D'"
    using all [rule_format, of "''servers''"] by simp
  have paths: "carried_over ''paths'' ?D ?D'"
    using all [rule_format, of "''paths''"] by simp
  have l: "inner (Elsewhere (Inr 0)) (JArr ?S) = Inr (JArr ?S')"
    by code_simp
  have "\<exists>g ys. JArr ?S' = JArr ys \<and> length ys = length ?S \<and>
      list_all2 (\<lambda>x y. inner (Elsewhere g) x = Inr y) ?S ys"
    using frame_property [where c = "Elsewhere (Inr 0)" and xs = ?S and outs = "JArr ?S'",
        THEN conjunct2, THEN conjunct2, THEN conjunct1] l
    by (rule mp)
  then have items: "\<exists>g. list_all2 (\<lambda>x y. inner (Elsewhere g) x = Inr y) ?S ?S'"
    by simp
  from h info servers paths l items show ?thesis by (intro conjI)
qed

text \<open>
  Claim C10 (guard of rule A). For every Object node whose \<^verbatim>\<open>anyOf\<close> field exists
  and is not a Sequence, rule A is skipped: the node's fields are not touched by it,
  the converted node has under \<^verbatim>\<open>anyOf\<close> the recursively converted old value (the
  old value itself unless it is an Object), nothing is filtered, and no
  \<^verbatim>\<open>nullable\<close> field is added.
\<close>

theorem anyOf_non_sequence_guard:
  assumes "inner c (JObj d) = Inr out"
    and "dict_get ''anyOf'' d = Some v"
    and "\<not> is_list v"
  shows "rule_A c d = Inr d \<and>
    (\<exists>d' c' v'. out = JObj d' \<and> inner c' v = Inr v' \<and> dict_get ''anyOf'' d' = Some v' \<and>
       \<not> is_list v' \<and> (\<not> is_dict v \<longrightarrow> v' = v) \<and> carried_over ''nullable'' d d')"
proof -
  from assms(2,3) have skip: "rule_A c d = Inr d"
    by (intro rule_A_skip) auto
  from assms(1) skip obtain d' where
    d3: "inner_values c (root_anyOf_len c (JObj (rule_B d))) (rule_B d) = Inr d'" and
    out: "out = JObj d'"
    by (auto split: sum.splits)
  have "dict_get ''anyOf'' (rule_B d) = Some v"
    using rule_B_get_other [of "''anyOf''" d] assms(2) by simp
  with inner_values_get [OF d3, of "''anyOf''"] obtain c' v' where
    v: "inner c' v = Inr v'" and v': "dict_get ''anyOf'' d' = Some v'"
    by auto
  from v assms(3) have nl: "\<not> is_list v'" by (cases v) (auto split: sum.splits)
  from v assms(3) have leaf: "\<not> is_dict v \<longrightarrow> v' = v" using inner_leaf by blast
  have "dict_get ''nullable'' (rule_B d) = dict_get ''nullable'' d"
    using rule_B_get_other [of "''nullable''" d] by simp
  with inner_values_carried [OF d3, of "''nullable''"] have "carried_over ''nullable'' d d'"
    by (simp add: carried_over_def)
  with skip out v v' nl leaf show ?thesis by blast
qed

theorem anyOf_non_sequence_guard_witness:
  "inner (Elsewhere (Inr 5)) (JObj [(''anyOf'', JObj [(''examples'', JArr [JStr ''a''])])])
     = Inr (JObj [(''anyOf'', JObj [(''example'', JStr ''a'')])] :: int json)
   \<and> dict_get ''anyOf'' [(''anyOf'', JObj [(''examples'', JArr [JStr ''a''])])]
     = Some (JObj [(''examples'', JArr [JStr ''a''])] :: int json)
   \<and> \<not> is_list (JObj [(''examples'', JArr [JStr ''a''])] :: int json)
   \<and> rule_A (Elsewhere (Inr 5)) [(''anyOf'', JObj [(''examples'', JArr [JStr ''a''])])]
     = Inr ([(''anyOf'', JObj [(''examples'', JArr [JStr ''a''])])] :: int dict)
   \<and> carried_over ''nullable''
        [(''anyOf'', JObj [(''examples'', JArr [JStr ''a''])])]
        ([(''anyOf'', JObj [(''example'', JStr ''a'')])] :: int dict)"
proof -
  let ?D = "[(''anyOf'', JObj [(''examples'', JArr [JStr ''a''])])] :: int dict"
  let ?D' = "[(''anyOf'', JObj [(''example'', JStr ''a'')])] :: int dict"
  have h1: "inner (Elsewhere (Inr 5)) (JObj ?D) = Inr (JObj ?D')"
    by code_simp
  have h2: "dict_get ''anyOf'' ?D = Some (JObj [(''examples'', JArr [JStr ''a''])])"
    by (simp add: dict_get_def)
  have h3: "\<not> is_list (JObj [(''examples'', JArr [JStr ''a''])] :: int json)"
    by simp
  from anyOf_non_sequence_guard [OF h1 h2 h3]
  have "rule_A (Elsewhere (Inr 5)) ?D = Inr ?D \<and> carried_over ''nullable'' ?D ?D'"
    by auto
  with h1 h2 h3 show ?thesis by simp
qed

text \<open>
  Claim C5, amended. For every Object node with a field \<^verbatim>\<open>examples\<close>, the converted
  node has no field \<^verbatim>\<open>examples\<close>. If the removed value was a non-empty Sequence,
  the converted node has a field \<^verbatim>\<open>example\<close> equal to the recursively converted
  first element of that Sequence (the first element itself when that is a String,
  Number, Boolean or Null). If the removed value was an empty Sequence or not a
  Sequence, no \<^verbatim>\<open>example\<close> field is added: the node has one only if it had one
  before.
\<close>

theorem examples_collapsed:
  assumes "inner c (JObj d) = Inr out"
    and "dict_get ''examples'' d = Some ex"
  shows "\<exists>d'. out = JObj d' \<and> dict_get ''examples'' d' = None \<and>
    (case ex of
       JArr (e # rest) \<Rightarrow>
         (\<exists>g e'. inner (Elsewhere g) e = Inr e' \<and> dict_get ''example'' d' = Some e' \<and>
            (\<not> is_dict e \<and> \<not> is_list e \<longrightarrow> e' = e))
     | _ \<Rightarrow> carried_over ''example'' d d')"
proof -
  from assms(1) obtain d1 d' where
    d1: "rule_A c d = Inr d1" and
    d3: "inner_values c (root_anyOf_len c (JObj (rule_B d1))) (rule_B d1) = Inr d'" and
    out: "out = JObj d'"
    by (rule inner_node_split)
  have ex1: "dict_get ''examples'' d1 = Some ex"
    using rule_A_get_other [OF d1, of "''examples''"] assms(2) by simp
  have old: "dict_get ''example'' d1 = dict_get ''example'' d"
    using rule_A_get_other [OF d1, of "''example''"] by simp
  have gone: "dict_get ''examples'' d' = None"
    using inner_values_get [OF d3, of "''examples''"] by (simp add: rule_B_get_examples)
  have car: "carried_over ''example'' (rule_B d1) d'"
    using inner_values_carried [OF d3, of "''example''"] by simp
  have "case ex of
       JArr (e # rest) \<Rightarrow>
         (\<exists>g e'. inner (Elsewhere g) e = Inr e' \<and> dict_get ''example'' d' = Some e' \<and>
            (\<not> is_dict e \<and> \<not> is_list e \<longrightarrow> e' = e))
     | _ \<Rightarrow> carried_over ''example'' d d'"
  proof (cases "\<exists>e rest. ex = JArr (e # rest)")
    case True
    then obtain e rest where ex: "ex = JArr (e # rest)" by blast
    with ex1 have "dict_get ''example'' (rule_B d1) = Some e"
      by (simp add: rule_B_get_example)
    with car obtain g e' where
      e: "inner (Elsewhere g) e = Inr e'" and e': "dict_get ''example'' d' = Some e'"
      by (auto simp: carried_over_def)
    from e have "\<not> is_dict e \<and> \<not> is_list e \<longrightarrow> e' = e" using inner_leaf by blast
    with e e' ex show ?thesis by auto
  next
    case False
    with ex1 have "dict_get ''example'' (rule_B d1) = dict_get ''example'' d1"
      by (auto simp: rule_B_get_example split: json.splits list.splits)
    with car old have "carried_over ''example'' d d'" by (simp add: carried_over_def)
    with False show ?thesis by (auto split: json.splits list.splits)
  qed
  with out gone show ?thesis by blast
qed

theorem examples_collapsed_witness:
  "inner (Elsewhere (Inr 0))
     (JObj [(''examples'', JArr [JObj [(''examples'', JArr [JStr ''a''])], JStr ''b'']),
            (''example'', JStr ''old'')])
     = Inr (JObj [(''example'', JObj [(''example'', JStr ''a'')])] :: int json)
   \<and> dict_get ''examples''
        [(''examples'', JArr [JObj [(''examples'', JArr [JStr ''a''])], JStr ''b'']),
         (''example'', JStr ''old'')]
     = Some (JArr [JObj [(''examples'', JArr [JStr ''a''])], JStr ''b''] :: int json)
   \<and> (\<exists>g e'. inner (Elsewhere g) (JObj [(''examples'', JArr [JStr ''a''])]) = Inr e'
        \<and> dict_get ''example'' ([(''example'', JObj [(''example'', JStr ''a'')])] :: int dict)
          = Some e')"
proof -
  let ?D = "[(''examples'', JArr [JObj [(''examples'', JArr [JStr ''a''])], JStr ''b'']),
             (''example'', JStr ''old'')] :: int dict"
  let ?D' = "[(''example'', JObj [(''example'', JStr ''a'')])] :: int dict"
  have h1: "inner (Elsewhere (Inr 0)) (JObj ?D) = Inr (JObj ?D')"
    by code_simp
  have h2: "dict_get ''examples'' ?D
      = Some (JArr [JObj [(''examples'', JArr [JStr ''a''])], JStr ''b''])"
    by (simp add: dict_get_def)
  from examples_collapsed [OF h1 h2]
  have "\<exists>g e'. inner (Elsewhere g) (JObj [(''examples'', JArr [JStr ''a''])]) = Inr e'
        \<and> dict_get ''example'' ?D' = Some e'"
    by auto
  with h1 h2 show ?thesis by simp
qed

text \<open>
  Claim C5 as stated asks for \<^verbatim>\<open>example\<close> to equal the first element of the removed
  Sequence. The loop of line 36 runs after the rewrite and descends into the new
  \<^verbatim>\<open>example\<close> value: a first element that itself has \<^verbatim>\<open>examples\<close> is rewritten.
\<close>

theorem examples_first_element_counterexample:
  "convert_3_dot_1_to_3_dot_0
     (JObj [(''openapi'', JStr ''3.1.0''),
            (''schema'', JObj [(''examples'', JArr [JObj [(''examples'', JArr [JStr ''a''])]])])])
   = Inr (JObj [(''openapi'', JStr ''3.0.2''),
                (''schema'', JObj [(''example'', JObj [(''example'', JStr ''a'')])])]
          :: int json)
   \<and> dict_get ''example'' [(''example'', JObj [(''example'', JStr ''a'')])]
     \<noteq> Some (JObj [(''examples'', JArr [JStr ''a''])] :: int json)"
proof -
  have "convert_3_dot_1_to_3_dot_0
     (JObj [(''openapi'', JStr ''3.1.0''),
            (''schema'', JObj [(''examples'', JArr [JObj [(''examples'', JArr [JStr ''a''])]])])])
   = Inr (JObj [(''openapi'', JStr ''3.0.2''),
                (''schema'', JObj [(''example'', JObj [(''example'', JStr ''a'')])])]
          :: int json)"
    by code_simp
  then show ?thesis by (simp add: dict_get_def)
qed

text \<open>
  Claim C6, amended. For every Object node whose \<^verbatim>\<open>anyOf\<close> is a Sequence with no
  Object entry of \<^verbatim>\<open>type\<close> \<^verbatim>\<open>null\<close>, the converted node has under \<^verbatim>\<open>anyOf\<close> a
  Sequence of the same length, whose entries are the recursively converted entries of
  the input, in order; an entry that is a String, Number, Boolean or Null is kept as it
  is.
\<close>

theorem anyOf_without_null_entry:
  assumes "inner c (JObj d) = Inr out"
    and "dict_get ''anyOf'' d = Some (JArr items)"
    and "list_all (\<lambda>item. \<not> is_null_typed item) items"
  shows "\<exists>d' g items'. out = JObj d' \<and> dict_get ''anyOf'' d' = Some (JArr items') \<and>
     length items' = length items \<and>
     list_all2 (\<lambda>x x'. inner (Elsewhere g) x = Inr x' \<and> (\<not> is_dict x \<and> \<not> is_list x \<longrightarrow> x' = x))
       items items'"
proof -
  from assms(1) obtain d1 d' where
    d1: "rule_A c d = Inr d1" and
    d3: "inner_values c (root_anyOf_len c (JObj (rule_B d1))) (rule_B d1) = Inr d'" and
    out: "out = JObj d'"
    by (rule inner_node_split)
  from assms(3) have keep: "filter (\<lambda>item. \<not> is_null_typed item) items = items"
    by (simp add: list_all_iff)
  have "dict_get ''anyOf'' (rule_B d1) = Some (JArr items)"
    using rule_A_get_anyOf [OF d1] rule_B_get_other [of "''anyOf''" d1] assms(2) keep by simp
  with inner_values_get [OF d3, of "''anyOf''"] obtain c' v' where
    v: "inner c' (JArr items) = Inr v'" and v': "dict_get ''anyOf'' d' = Some v'"
    by auto
  from v obtain items' where
    it: "inner_items (root_anyOf_len c' (JArr items)) items = Inr items'" and
    vi: "v' = JArr items'"
    by (auto split: sum.splits)
  let ?g = "root_anyOf_len c' (JArr items)"
  have all2: "list_all2 (\<lambda>x x'. inner (Elsewhere ?g) x = Inr x') items items'"
    by (rule inner_items_all2 [OF it])
  then have len: "length items' = length items" by (simp add: list_all2_lengthD)
  from all2 have "list_all2
      (\<lambda>x x'. inner (Elsewhere ?g) x = Inr x' \<and> (\<not> is_dict x \<and> \<not> is_list x \<longrightarrow> x' = x))
      items items'"
    by (rule list_all2_mono) (use inner_leaf in blast)
  with out v' vi len show ?thesis by blast
qed

theorem anyOf_without_null_entry_witness:
  "inner (Elsewhere (Inr 0))
     (JObj [(''anyOf'', JArr [JObj [(''type'', JStr ''string''), (''examples'', JArr [JStr ''a''])],
                              JObj [(''type'', JStr ''integer'')],
                              JStr ''s''])])
     = Inr (JObj [(''anyOf'', JArr [JObj [(''type'', JStr ''string''), (''example'', JStr ''a'')],
                                    JObj [(''type'', JStr ''integer'')],
                                    JStr ''s''])] :: int json)
   \<and> list_all (\<lambda>item. \<not> is_null_typed item)
        [JObj [(''type'', JStr ''string''), (''examples'', JArr [JStr ''a''])],
         JObj [(''type'', JStr ''integer'')],
         JStr ''s'' :: int json]
   \<and> (\<exists>g. list_all2
          (\<lambda>x x'. inner (Elsewhere g) x = Inr x' \<and> (\<not> is_dict x \<and> \<not> is_list x \<longrightarrow> x' = x))
        [JObj [(''type'', JStr ''string''), (''examples'', JArr [JStr ''a''])],
         JObj [(''type'', JStr ''integer'')],
         JStr ''s'']
        [JObj [(''type'', JStr ''string''), (''example'', JStr ''a'')],
         JObj [(''type'', JStr ''integer'')],
         JStr ''s'' :: int json])"
proof -
  let ?items = "[JObj [(''type'', JStr ''string''), (''examples'', JArr [JStr ''a''])],
                 JObj [(''type'', JStr ''integer'')],
                 JStr ''s''] :: int json list"
  let ?items' = "[JObj [(''type'', JStr ''string''), (''example'', JStr ''a'')],
                  JObj [(''type'', JStr ''integer'')],
                  JStr ''s''] :: int json list"
  have h1: "inner (Elsewhere (Inr 0)) (JObj [(''anyOf'', JArr ?items)])
      = Inr (JObj [(''anyOf'', JArr ?items')])"
    by code_simp
  have h2: "dict_get ''anyOf'' [(''anyOf'', JArr ?items)] = Some (JArr ?items)"
    by (simp add: dict_get_def)
  have h3: "list_all (\<lambda>item. \<not> is_null_typed item) ?items"
    by (simp add: dict_get_def)
  from anyOf_without_null_entry [OF h1 h2 h3]
  have "\<exists>g. list_all2
          (\<lambda>x x'. inner (Elsewhere g) x = Inr x' \<and> (\<not> is_dict x \<and> \<not> is_list x \<longrightarrow> x' = x))
          ?items ?items'"
    by (auto simp: dict_get_def)
  with h1 h3 show ?thesis by (intro conjI)
qed

text \<open>
  Claim C6 as stated asks for the \<^verbatim>\<open>anyOf\<close> field to be unchanged. The surviving
  entries are visited by the loop of line 36, so an entry with \<^verbatim>\<open>examples\<close> is
  rewritten.
\<close>

theorem anyOf_unchanged_counterexample:
  "convert_3_dot_1_to_3_dot_0
     (JObj [(''openapi'', JStr ''3.1.0''),
            (''schema'', JObj [(''anyOf'',
               JArr [JObj [(''type'', JStr ''string''), (''examples'', JArr [JStr ''a''])],
                     JObj [(''type'', JStr ''integer'')]])])])
   = Inr (JObj [(''openapi'', JStr ''3.0.2''),
                (''schema'', JObj [(''anyOf'',
                   JArr [JObj [(''type'', JStr ''string''), (''example'', JStr ''a'')],
                         JObj [(''type'', JStr ''integer'')]])])]
          :: int json)
   \<and> list_all (\<lambda>item. \<not> is_null_typed item)
        [JObj [(''type'', JStr ''string''), (''examples'', JArr [JStr ''a''])],
         JObj [(''type'', JStr ''integer'') :: string \<times> int json]]
   \<and> dict_get ''anyOf'' [(''anyOf'',
         JArr [JObj [(''type'', JStr ''string''), (''example'', JStr ''a'')],
               JObj [(''type'', JStr ''integer'')]])]
     \<noteq> Some (JArr [JObj [(''type'', JStr ''string''), (''examples'', JArr [JStr ''a''])],
                    JObj [(''type'', JStr ''integer'') :: string \<times> int json]])"
proof -
  have "convert_3_dot_1_to_3_dot_0
     (JObj [(''openapi'', JStr ''3.1.0''),
            (''schema'', JObj [(''anyOf'',
               JArr [JObj [(''type'', JStr ''string''), (''examples'', JArr [JStr ''a''])],
                     JObj [(''type'', JStr ''integer'')]])])])
   = Inr (JObj [(''openapi'', JStr ''3.0.2''),
                (''schema'', JObj [(''anyOf'',
                   JArr [JObj [(''type'', JStr ''string''), (''example'', JStr ''a'')],
                         JObj [(''type'', JStr ''integer'')]])])]
          :: int json)"
    by code_simp
  then show ?thesis by (simp add: dict_get_def)
qed

text \<open>
  The other half of claim C6, that no \<^verbatim>\<open>nullable\<close> field is added, depends on the root
  document: line 26 compares against the length of the root's \<^verbatim>\<open>anyOf\<close>.
\<close>

lemma nullable_added_without_null_entry:
  "convert_3_dot_1_to_3_dot_0
     (JObj [(''openapi'', JStr ''3.1.0''),
            (''anyOf'', JArr [JStr ''a'', JStr ''b'', JStr ''c'']),
            (''schema'', JObj [(''anyOf'', JArr [JObj [(''type'', JStr ''string'')],
                                                  JObj [(''type'', JStr ''integer'')]])])])
   = Inr (JObj [(''openapi'', JStr ''3.0.2''),
                (''anyOf'', JArr [JStr ''a'', JStr ''b'', JStr ''c'']),
                (''schema'', JObj [(''anyOf'', JArr [JObj [(''type'', JStr ''string'')],
                                                      JObj [(''type'', JStr ''integer'')]]),
                                   (''nullable'', JBool True)])]
          :: int json)"
  by code_simp

section \<open>The comparison of line 26\<close>

text \<open>
  Claim C1 says that a node whose \<^verbatim>\<open>anyOf\<close> list lost an entry to the filter gets
  \<^verbatim>\<open>nullable = true\<close>. Line 26 compares the filtered list with
  \<^verbatim>\<open>json_content.get("anyOf", [])\<close>, the root's field, not with the node's own list
  before the filter. In a document whose root has no \<^verbatim>\<open>anyOf\<close> the bound is 0 and
  the flag is never set: the node of the specification's own example loses its null
  entry and gets no \<^verbatim>\<open>nullable\<close>.
\<close>

theorem nullable_flag_not_set:
  "convert_3_dot_1_to_3_dot_0
     (JObj [(''openapi'', JStr ''3.1.0''),
            (''schema'', JObj [(''anyOf'', JArr [JObj [(''type'', JStr ''string'')],
                                                  JObj [(''type'', JStr ''null'')]])])])
   = Inr (JObj [(''openapi'', JStr ''3.0.2''),
                (''schema'', JObj [(''anyOf'', JArr [JObj [(''type'', JStr ''string'')]])])]
          :: int json)"
  by code_simp

text \<open>
  Claim C2 gives the expected output of the end-to-end example, with
  \<^verbatim>\<open>nullable = true\<close> in \<^verbatim>\<open>Pet\<close>. The code returns the document below, in which
  \<^verbatim>\<open>Pet\<close> has no \<^verbatim>\<open>nullable\<close> field.
\<close>

theorem pet_document_converted:
  "convert_3_dot_1_to_3_dot_0
     (JObj [(''openapi'', JStr ''3.1.0''),
            (''components'', JObj [(''schemas'', JObj [(''Pet'',
               JObj [(''anyOf'', JArr [JObj [(''type'', JStr ''object'')],
                                       JObj [(''type'', JStr ''null'')]]),
                     (''examples'', JArr [JObj [(''id'', JNum 1)]])])])])])
   = Inr (JObj [(''openapi'', JStr ''3.0.2''),
                (''components'', JObj [(''schemas'', JObj [(''Pet'',
                   JObj [(''anyOf'', JArr [JObj [(''type'', JStr ''object'')]]),
                         (''example'', JObj [(''id'', JNum 1)])])])])]
          :: int json)"
  by code_simp

text \<open>
  Claim C8 says that converting twice gives what converting once gives. When the root's
  \<^verbatim>\<open>anyOf\<close> is a dict, its number of keys is the bound of line 26, and its own
  rewrite changes that number: a node visited before it is compared with the old
  number in the first run and with the new one in the second.
\<close>

theorem conversion_not_idempotent:
  "convert_3_dot_1_to_3_dot_0
     (JObj [(''openapi'', JStr ''3.1.0''),
            (''schema'', JObj [(''anyOf'', JArr [JObj [(''type'', JStr ''string'')]])]),
            (''anyOf'', JObj [(''anyOf'', JArr [])])])
   = Inr (JObj [(''openapi'', JStr ''3.0.2''),
                (''schema'', JObj [(''anyOf'', JArr [JObj [(''type'', JStr ''string'')]])]),
                (''anyOf'', JObj [(''anyOf'', JArr []), (''nullable'', JBool True)])]
          :: int json)
   \<and> convert_3_dot_1_to_3_dot_0
     (JObj [(''openapi'', JStr ''3.0.2''),
            (''schema'', JObj [(''anyOf'', JArr [JObj [(''type'', JStr ''string'')]])]),
            (''anyOf'', JObj [(''anyOf'', JArr []), (''nullable'', JBool True)])])
   = Inr (JObj [(''openapi'', JStr ''3.0.2''),
                (''schema'', JObj [(''anyOf'', JArr [JObj [(''type'', JStr ''string'')]]),
                                   (''nullable'', JBool True)]),
                (''anyOf'', JObj [(''anyOf'', JArr []), (''nullable'', JBool True)])]
          :: int json)"
  by code_simp

text \<open>
  A document with no null entry, no \<^verbatim>\<open>examples\<close> and \<^verbatim>\<open>openapi\<close> already
  \<^verbatim>\<open>3.0.2\<close> is still changed when its root has an \<^verbatim>\<open>anyOf\<close>.
\<close>

lemma clean_document_changed:
  "convert_3_dot_1_to_3_dot_0
     (JObj [(''openapi'', JStr ''3.0.2''),
            (''anyOf'', JArr [JObj [(''type'', JStr ''string'')]]),
            (''schema'', JObj [(''anyOf'', JArr [])])])
   = Inr (JObj [(''openapi'', JStr ''3.0.2''),
                (''anyOf'', JArr [JObj [(''type'', JStr ''string'')]]),
                (''schema'', JObj [(''anyOf'', JArr []), (''nullable'', JBool True)])]
          :: int json)"
  by code_simp

text \<open>
  When the root's \<^verbatim>\<open>anyOf\<close> has no length, line 26 raises at the first node that has
  an \<^verbatim>\<open>anyOf\<close> list, and nothing is returned.
\<close>

lemma convert_raises:
  "convert_3_dot_1_to_3_dot_0
     (JObj [(''openapi'', JStr ''3.1.0''), (''anyOf'', JBool True),
            (''schema'', JObj [(''anyOf'', JArr [])])] :: int json)
   = Inl TypeError"
  by code_simp

end
